theory Spec2Isabelle
  imports Main "HOL-Library.Multiset"
begin

section \<open>Data model\<close>

text \<open>
  The repository is an Express/Mongoose service. Two collections are persisted:
  events (each embedding its sections, \<^verbatim>\<open>models/Event.js\<close>) and bookings
  (\<^verbatim>\<open>models/Booking.js\<close>). ObjectIds are modelled as natural numbers, JavaScript
  numbers as integers (fractional quantities are outside the model), timestamps as
  integers. The \<^verbatim>\<open>createdAt\<close>/\<^verbatim>\<open>updatedAt\<close> stamps of events are not used by any
  operation and are left out; the \<^verbatim>\<open>createdAt\<close> of a booking is kept because the listing
  sorts by it.
\<close>

type_synonym oid = nat

record section_doc =
  sec_id :: oid
  sec_name :: string
  price :: int
  capacity :: int
  remaining :: int

record event =
  ev_id :: oid
  ev_name :: string
  sections :: "section_doc list"

record booking =
  bk_id :: oid
  bk_eventId :: oid
  bk_sectionId :: oid
  bk_qty :: int
  bk_createdAt :: int

text \<open>
  Every call the handlers issue against the store is recorded, in order, so that
  ``the store is not contacted'' and ``the save is attempted once'' are statements about
  the state.
\<close>

datatype store_call =
    FindOneAndUpdate oid oid int
  | SaveBooking oid oid int
  | SaveEvent

record db =
  events :: "event list"
  bookings :: "booking list"
  next_oid :: oid
  calls :: "store_call list"

definition empty_db :: db where
  "empty_db = \<lparr>events = [], bookings = [], next_oid = 0, calls = []\<rparr>"

text \<open>
  What a call takes from its surroundings: the clock, and the outcome of each successive
  \<^verbatim>\<open>save()\<close> it may attempt (\<open>True\<close>: the write is stored; attempts beyond the list
  succeed). A handler that attempts one save reads only the head of the list.
\<close>

record env =
  now :: int
  saves :: "bool list"

definition save_succeeds :: "env \<Rightarrow> bool" where
  "save_succeeds en = (case saves en of [] \<Rightarrow> True | ok # _ \<Rightarrow> ok)"

text \<open>
  The errors \<^verbatim>\<open>bookTicket\<close> can throw: its own \<^verbatim>\<open>Error('Not enough seats available')\<close>,
  a validation error of the booking schema, and a fault of the store while writing. The
  messages of the last two stand for whatever Mongoose reports; what matters to the
  controller is that they are neither of the two strings it compares with.
\<close>

datatype error = NotEnoughSeats | ValidationError | StorageError

fun message :: "error \<Rightarrow> string" where
  "message NotEnoughSeats = ''Not enough seats available''"
| "message ValidationError = ''Booking validation failed''"
| "message StorageError = ''storage write failed''"

section \<open>The conditional update of \<^verbatim>\<open>bookTicket\<close>\<close>

text \<open>
  \<^verbatim>\<open>Event.findOneAndUpdate(
     { _id: eventId, 'sections._id': sectionId, 'sections.remaining': { $gte: qty } },
     { $inc: { 'sections.$.remaining': -qty } }, { new: true })\<close>

  The filter has three conditions, joined by conjunction. The two on the embedded array
  are separate dotted-path conditions, not one \<^verbatim>\<open>$elemMatch\<close>: MongoDB evaluates each
  of them over the whole array, so the document matches when some section has the id and
  some section, possibly another one, has \<^verbatim>\<open>remaining >= qty\<close>.
\<close>

definition matches :: "oid \<Rightarrow> oid \<Rightarrow> int \<Rightarrow> event \<Rightarrow> bool" where
  "matches eventId sectionId qty ev =
     (ev_id ev = eventId
      \<and> list_ex (\<lambda>s. sec_id s = sectionId) (sections ev)
      \<and> list_ex (\<lambda>s. qty \<le> remaining s) (sections ev))"

fun first_index :: "('a \<Rightarrow> bool) \<Rightarrow> 'a list \<Rightarrow> nat option" where
  "first_index P [] = None"
| "first_index P (x # xs) = (if P x then Some 0 else map_option Suc (first_index P xs))"

text \<open>
  The positional \<^verbatim>\<open>$\<close> of the update stands for the array index recorded while the
  filter was matched. Each array condition that matches records the index of the first
  element satisfying it, a later condition overwriting an earlier one; the last array
  condition of the filter is \<^verbatim>\<open>'sections.remaining': { $gte: qty }\<close>, so \<^verbatim>\<open>$\<close> is
  the first section with \<^verbatim>\<open>remaining >= qty\<close>.
\<close>

definition positional :: "int \<Rightarrow> section_doc list \<Rightarrow> nat option" where
  "positional qty ss = first_index (\<lambda>s. qty \<le> remaining s) ss"

definition inc_remaining :: "int \<Rightarrow> section_doc \<Rightarrow> section_doc" where
  "inc_remaining d s = s\<lparr>remaining := remaining s + d\<rparr>"

definition apply_inc :: "int \<Rightarrow> event \<Rightarrow> event" where
  "apply_inc qty ev =
     (case positional qty (sections ev) of
        None \<Rightarrow> ev
      | Some i \<Rightarrow> ev\<lparr>sections := (sections ev)[i := inc_remaining (- qty) (sections ev ! i)]\<rparr>)"

text \<open>
  The collection is scanned in order; the first matching document is updated in place
  and returned as updated (\<^verbatim>\<open>new: true\<close>), together with the new collection. \<open>None\<close>
  is the \<^verbatim>\<open>null\<close> of the source: no document matched, nothing was written.
\<close>

fun findOneAndUpdate :: "oid \<Rightarrow> oid \<Rightarrow> int \<Rightarrow> event list \<Rightarrow> (event \<times> event list) option" where
  "findOneAndUpdate eventId sectionId qty [] = None"
| "findOneAndUpdate eventId sectionId qty (ev # evs) =
     (if matches eventId sectionId qty ev
      then Some (apply_inc qty ev, apply_inc qty ev # evs)
      else map_option (\<lambda>(u, evs'). (u, ev # evs')) (findOneAndUpdate eventId sectionId qty evs))"

section \<open>\<^verbatim>\<open>services/bookingService.js\<close>\<close>

text \<open>
  \<^verbatim>\<open>bookTicket\<close>: the conditional update; when it returns \<^verbatim>\<open>null\<close> the function throws
  \<^verbatim>\<open>Error('Not enough seats available')\<close>. Otherwise a booking is constructed (a fresh
  \<^verbatim>\<open>_id\<close>) and saved, once. The save validates against the schema first (\<^verbatim>\<open>qty\<close> has
  \<^verbatim>\<open>min: 1\<close>) and then writes; either can throw, and the \<^verbatim>\<open>catch\<close> rethrows.
  Faults of the store during the update call itself are not modelled.
\<close>

definition bookTicket :: "env \<Rightarrow> db \<Rightarrow> oid \<Rightarrow> oid \<Rightarrow> int \<Rightarrow> (error + booking) \<times> db" where
  "bookTicket en d eventId sectionId qty =
     (let d1 = d\<lparr>calls := calls d @ [FindOneAndUpdate eventId sectionId qty]\<rparr> in
      case findOneAndUpdate eventId sectionId qty (events d) of
        None \<Rightarrow> (Inl NotEnoughSeats, d1)
      | Some (updatedEvent, evs) \<Rightarrow>
          (let b = \<lparr>bk_id = next_oid d, bk_eventId = eventId, bk_sectionId = sectionId,
                    bk_qty = qty, bk_createdAt = now en\<rparr>;
               d2 = d1\<lparr>events := evs, next_oid := Suc (next_oid d),
                       calls := calls d1 @ [SaveBooking eventId sectionId qty]\<rparr>
           in if qty < 1 then (Inl ValidationError, d2)
              else if save_succeeds en then (Inr b, d2\<lparr>bookings := bookings d2 @ [b]\<rparr>)
              else (Inl StorageError, d2)))"

text \<open>
  \<^verbatim>\<open>getAllBookings\<close>: all bookings, sorted by \<^verbatim>\<open>createdAt\<close> descending, the
  \<^verbatim>\<open>eventId\<close> of each replaced by the \<^verbatim>\<open>_id\<close> and \<^verbatim>\<open>name\<close> of the event it refers to
  (\<^verbatim>\<open>null\<close> when there is none).
\<close>

record listed_booking =
  lb_id :: oid
  lb_event :: "(oid \<times> string) option"
  lb_sectionId :: oid
  lb_qty :: int
  lb_createdAt :: int

definition findById :: "oid \<Rightarrow> event list \<Rightarrow> event option" where
  "findById i evs = find (\<lambda>ev. ev_id ev = i) evs"

definition populate :: "event list \<Rightarrow> booking \<Rightarrow> listed_booking" where
  "populate evs b =
     \<lparr>lb_id = bk_id b,
      lb_event = map_option (\<lambda>ev. (ev_id ev, ev_name ev)) (findById (bk_eventId b) evs),
      lb_sectionId = bk_sectionId b, lb_qty = bk_qty b, lb_createdAt = bk_createdAt b\<rparr>"

definition getAllBookings :: "db \<Rightarrow> listed_booking list" where
  "getAllBookings d =
     map (populate (events d)) (sort_key (\<lambda>b. - bk_createdAt b) (bookings d))"

section \<open>\<^verbatim>\<open>controllers/bookingController.js\<close>\<close>

datatype 'a reply = Json nat 'a | JsonError nat string

record booking_request =
  rq_eventId :: "oid option"
  rq_sectionId :: "oid option"
  rq_qty :: "int option"

text \<open>
  \<^verbatim>\<open>createBooking\<close>. A field is falsy when it is absent; \<^verbatim>\<open>qty\<close> is also falsy when it
  is \<open>0\<close>. Both guards answer before \<^verbatim>\<open>bookTicket\<close> is called. In the \<^verbatim>\<open>catch\<close>, two
  messages are answered with status 400 and every other error with status 500.
\<close>

definition createBooking :: "env \<Rightarrow> db \<Rightarrow> booking_request \<Rightarrow> booking reply \<times> db" where
  "createBooking en d rq =
     (case (rq_eventId rq, rq_sectionId rq, rq_qty rq) of
        (Some eventId, Some sectionId, Some qty) \<Rightarrow>
          if qty = 0 then (JsonError 400 ''Missing required fields: eventId, sectionId, qty'', d)
          else if qty < 1 then (JsonError 400 ''Quantity must be at least 1'', d)
          else (case bookTicket en d eventId sectionId qty of
                  (Inr b, d') \<Rightarrow> (Json 201 b, d')
                | (Inl e, d') \<Rightarrow>
                    if message e = ''Not enough seats available''
                       \<or> message e = ''Event or Section not found''
                    then (JsonError 400 (message e), d')
                    else (JsonError 500 ''Internal Server Error'', d'))
      | _ \<Rightarrow> (JsonError 400 ''Missing required fields: eventId, sectionId, qty'', d))"

definition listBookings :: "db \<Rightarrow> listed_booking list reply" where
  "listBookings d = Json 200 (getAllBookings d)"

section \<open>\<^verbatim>\<open>controllers/eventController.js\<close>\<close>

text \<open>
  A section of the request body: every field may be absent. The spread
  \<^verbatim>\<open>...section\<close> keeps all of them, an \<^verbatim>\<open>_id\<close> included, and sets \<^verbatim>\<open>remaining\<close> to
  the supplied value when there is one and to \<^verbatim>\<open>capacity\<close> otherwise.
\<close>

record section_input =
  in_id :: "oid option"
  in_name :: "string option"
  in_price :: "int option"
  in_capacity :: "int option"
  in_remaining :: "int option"

record event_request =
  rq_name :: "string option"
  rq_sections :: "section_input list option"

definition with_remaining :: "section_input \<Rightarrow> section_input" where
  "with_remaining s =
     s\<lparr>in_remaining := (case in_remaining s of Some r \<Rightarrow> Some r | None \<Rightarrow> in_capacity s)\<rparr>"

text \<open>
  Schema validation of one section on \<^verbatim>\<open>event.save()\<close> (\<^verbatim>\<open>sectionSchema\<close>): \<^verbatim>\<open>name\<close>,
  \<^verbatim>\<open>price\<close>, \<^verbatim>\<open>capacity\<close> and \<^verbatim>\<open>remaining\<close> are required (a required string is not
  empty) and \<^verbatim>\<open>capacity\<close> has \<^verbatim>\<open>min: 1\<close>. There is no validator on \<^verbatim>\<open>remaining\<close>
  beyond its presence. A section without an \<^verbatim>\<open>_id\<close> of its own receives a fresh one.
\<close>

definition cast_section :: "oid \<Rightarrow> section_input \<Rightarrow> section_doc option" where
  "cast_section fresh s =
     (case (in_name s, in_price s, in_capacity s, in_remaining s) of
        (Some n, Some p, Some c, Some r) \<Rightarrow>
          if n \<noteq> [] \<and> 1 \<le> c
          then Some \<lparr>sec_id = (case in_id s of Some i \<Rightarrow> i | None \<Rightarrow> fresh),
                     sec_name = n, price = p, capacity = c, remaining = r\<rparr>
          else None
      | _ \<Rightarrow> None)"

fun cast_sections :: "oid \<Rightarrow> section_input list \<Rightarrow> section_doc list option" where
  "cast_sections fresh [] = Some []"
| "cast_sections fresh (s # ss) =
     (case cast_section fresh s of
        None \<Rightarrow> None
      | Some c \<Rightarrow> map_option ((#) c) (cast_sections (Suc fresh) ss))"

text \<open>
  \<^verbatim>\<open>createEvent\<close>: status 400 when the name or the section list is falsy or the list is
  empty; otherwise the event is built and saved, and whatever the save throws (a
  validation error, a fault of the store) is answered with status 500 and the error's
  message, for which the two strings below stand.
\<close>

definition createEvent :: "env \<Rightarrow> db \<Rightarrow> event_request \<Rightarrow> event reply \<times> db" where
  "createEvent en d rq =
     (case (rq_name rq, rq_sections rq) of
        (Some name, Some secs) \<Rightarrow>
          if name = [] \<or> secs = []
          then (JsonError 400 ''Name and at least one section are required'', d)
          else
            (let sectionsWithRemaining = map with_remaining secs;
                 d1 = d\<lparr>next_oid := Suc (next_oid d) + length secs,
                        calls := calls d @ [SaveEvent]\<rparr>
             in case cast_sections (Suc (next_oid d)) sectionsWithRemaining of
                  None \<Rightarrow> (JsonError 500 ''Event validation failed'', d1)
                | Some ss \<Rightarrow>
                    if save_succeeds en
                    then (let savedEvent = \<lparr>ev_id = next_oid d, ev_name = name, sections = ss\<rparr>
                          in (Json 201 savedEvent, d1\<lparr>events := events d1 @ [savedEvent]\<rparr>))
                    else (JsonError 500 ''storage write failed'', d1))
      | _ \<Rightarrow> (JsonError 400 ''Name and at least one section are required'', d))"

definition getEvent :: "db \<Rightarrow> oid \<Rightarrow> event reply" where
  "getEvent d i =
     (case findById i (events d) of
        None \<Rightarrow> JsonError 404 ''Event not found''
      | Some ev \<Rightarrow> Json 200 ev)"

section \<open>Sequences of calls\<close>

text \<open>
  A sequence of \<^verbatim>\<open>bookTicket\<close> calls against one section, each with its own
  surroundings and quantity, run one after the other; the results are kept in order.
  \<open>sold\<close> adds up the quantities of the calls that returned a booking.
\<close>

fun book_seq :: "db \<Rightarrow> oid \<Rightarrow> oid \<Rightarrow> (env \<times> int) list \<Rightarrow> (error + booking) list \<times> db" where
  "book_seq d eventId sectionId [] = ([], d)"
| "book_seq d eventId sectionId ((en, qty) # cs) =
     (case bookTicket en d eventId sectionId qty of
        (r, d') \<Rightarrow> (case book_seq d' eventId sectionId cs of (rs, d'') \<Rightarrow> (r # rs, d'')))"

fun sold :: "(error + booking) list \<Rightarrow> int" where
  "sold [] = 0"
| "sold (Inr b # rs) = bk_qty b + sold rs"
| "sold (Inl e # rs) = sold rs"

definition seats_left :: "db \<Rightarrow> oid \<Rightarrow> int list" where
  "seats_left d eventId =
     (case findById eventId (events d) of None \<Rightarrow> [] | Some ev \<Rightarrow> map remaining (sections ev))"

text \<open>
  Event ids are handed out from the counter of the store, so in every state the store
  can be in they are pairwise different and below the counter.
\<close>

definition wf_ids :: "db \<Rightarrow> bool" where
  "wf_ids d = (distinct (map ev_id (events d)) \<and> list_all (\<lambda>ev. ev_id ev < next_oid d) (events d))"

text \<open>
  The two writing routes, \<^verbatim>\<open>POST /events/create\<close> and \<^verbatim>\<open>POST /book\<close>, and the
  states reached from the empty store by a sequence of requests.
\<close>

datatype request = PostEvent env event_request | PostBook env booking_request

fun handle :: "db \<Rightarrow> request \<Rightarrow> db" where
  "handle d (PostEvent en rq) = snd (createEvent en d rq)"
| "handle d (PostBook en rq) = snd (createBooking en d rq)"

definition reach :: "request list \<Rightarrow> db" where
  "reach rs = foldl handle empty_db rs"

text \<open>
  Requests that create sections without a \<^verbatim>\<open>remaining\<close> of their own, and booking
  requests whose save is stored.
\<close>

fun plain :: "request \<Rightarrow> bool" where
  "plain (PostEvent en rq) =
     (case rq_sections rq of None \<Rightarrow> True | Some secs \<Rightarrow> list_all (\<lambda>s. in_remaining s = None) secs)"
| "plain (PostBook en rq) = save_succeeds en"

definition booked :: "booking list \<Rightarrow> oid \<Rightarrow> oid \<Rightarrow> int" where
  "booked bs eventId sectionId =
     sum_list (map bk_qty (filter (\<lambda>b. bk_eventId b = eventId \<and> bk_sectionId b = sectionId) bs))"

text \<open>The fields of a section that schema validation looks at.\<close>

definition fields_valid :: "section_input \<Rightarrow> bool" where
  "fields_valid s =
     (case (in_name s, in_price s, in_capacity s) of
        (Some n, Some p, Some c) \<Rightarrow> n \<noteq> [] \<and> 1 \<le> c
      | _ \<Rightarrow> False)"

definition nonpositive_capacity :: "section_input \<Rightarrow> bool" where
  "nonpositive_capacity s = (case in_capacity s of None \<Rightarrow> False | Some c \<Rightarrow> c \<le> 0)"

subsection \<open>Concrete requests\<close>

definition at_time :: "int \<Rightarrow> env" where
  "at_time t = \<lparr>now = t, saves = []\<rparr>"

definition sec_in :: "string \<Rightarrow> int \<Rightarrow> int option \<Rightarrow> section_input" where
  "sec_in n c r =
     \<lparr>in_id = None, in_name = Some n, in_price = Some 100, in_capacity = Some c, in_remaining = r\<rparr>"

definition event_rq :: "section_input list \<Rightarrow> event_request" where
  "event_rq secs = \<lparr>rq_name = Some ''Concert'', rq_sections = Some secs\<rparr>"

definition book_rq :: "oid \<Rightarrow> oid \<Rightarrow> int \<Rightarrow> booking_request" where
  "book_rq e s q = \<lparr>rq_eventId = Some e, rq_sectionId = Some s, rq_qty = Some q\<rparr>"

text \<open>An event with the sections VIP (capacity 1) and General (capacity 5), in a fresh store.\<close>

definition two_sections_db :: db where
  "two_sections_db =
     snd (createEvent (at_time 0) empty_db (event_rq [sec_in ''VIP'' 1 None, sec_in ''General'' 5 None]))"

text \<open>An event with the single section VIP of the given capacity, in a fresh store.\<close>

definition one_section_db :: "int \<Rightarrow> db" where
  "one_section_db c = snd (createEvent (at_time 0) empty_db (event_rq [sec_in ''VIP'' c None]))"

subsection \<open>State predicates used in the proofs\<close>

text \<open>
  The event with the given id is there, its ids apart from the others, and consists of
  one section with the given id and \<^verbatim>\<open>remaining\<close>.
\<close>

definition sole_section :: "db \<Rightarrow> oid \<Rightarrow> oid \<Rightarrow> int \<Rightarrow> bool" where
  "sole_section d e sid r =
     (distinct (map ev_id (events d))
      \<and> (case findById e (events d) of
            None \<Rightarrow> False
          | Some ev \<Rightarrow> (case sections ev of [s] \<Rightarrow> sec_id s = sid \<and> remaining s = r | _ \<Rightarrow> False)))"

text \<open>
  Bookings refer to event ids that have been handed out; and every event of a single
  section has sold what its bookings say.
\<close>

definition refs_below :: "db \<Rightarrow> bool" where
  "refs_below d = list_all (\<lambda>b. bk_eventId b < next_oid d) (bookings d)"

definition conserved :: "db \<Rightarrow> bool" where
  "conserved d =
     (\<forall>ev \<in> set (events d). \<forall>s. sections ev = [s] \<longrightarrow>
        capacity s - remaining s = booked (bookings d) (ev_id ev) (sec_id s))"

definition sound :: "db \<Rightarrow> bool" where
  "sound d = (wf_ids d \<and> refs_below d \<and> conserved d)"

text \<open>A single section of capacity 3 created with a \<^verbatim>\<open>remaining\<close> of 5, in a fresh store.\<close>

definition oversized_db :: db where
  "oversized_db = snd (createEvent (at_time 0) empty_db (event_rq [sec_in ''VIP'' 3 (Some 5)]))"

section \<open>Properties of the listing\<close>

lemma sorted_wrt_desc:
  "sorted (map (\<lambda>b. - bk_createdAt b) bs) \<Longrightarrow> sorted_wrt (\<lambda>a b. bk_createdAt b \<le> bk_createdAt a) bs"
  by (induction bs) auto

text \<open>
  Claim C9. \<^verbatim>\<open>getAllBookings\<close> returns every stored booking, each once: the entries of
  the result, read field by field, are as a multiset the stored bookings, with their
  own \<^verbatim>\<open>_id\<close>, section id, quantity and creation time, and in place of the event id the
  \<^verbatim>\<open>_id\<close> and name of the first event of the collection with that id (nothing when
  there is none). The result is ordered by creation time from the newest to the oldest,
  and \<^verbatim>\<open>listBookings\<close> answers with it.
\<close>

theorem getAllBookings_newest_first:
  "sorted_wrt (\<lambda>a b. lb_createdAt b \<le> lb_createdAt a) (getAllBookings d)
   \<and> mset (map (\<lambda>l. (lb_id l, lb_event l, lb_sectionId l, lb_qty l, lb_createdAt l))
             (getAllBookings d))
       = mset (map (\<lambda>b. (bk_id b,
                          map_option (\<lambda>ev. (ev_id ev, ev_name ev))
                            (find (\<lambda>ev. ev_id ev = bk_eventId b) (events d)),
                          bk_sectionId b, bk_qty b, bk_createdAt b))
                (bookings d))
   \<and> listBookings d = Json 200 (getAllBookings d)"
proof -
  let ?sorted = "sort_key (\<lambda>b. - bk_createdAt b) (bookings d)"
  let ?row = "\<lambda>b. (bk_id b,
                    map_option (\<lambda>ev. (ev_id ev, ev_name ev))
                      (find (\<lambda>ev. ev_id ev = bk_eventId b) (events d)),
                    bk_sectionId b, bk_qty b, bk_createdAt b)"
  have "sorted_wrt (\<lambda>a b. bk_createdAt b \<le> bk_createdAt a) ?sorted"
    by (rule sorted_wrt_desc) (rule sorted_sort_key)
  then have ordered: "sorted_wrt (\<lambda>a b. lb_createdAt b \<le> lb_createdAt a) (getAllBookings d)"
    by (simp add: getAllBookings_def sorted_wrt_map populate_def)
  have "map (\<lambda>l. (lb_id l, lb_event l, lb_sectionId l, lb_qty l, lb_createdAt l)) (getAllBookings d)
          = map ?row ?sorted"
    by (simp add: getAllBookings_def populate_def findById_def)
  then have content: "mset (map (\<lambda>l. (lb_id l, lb_event l, lb_sectionId l, lb_qty l, lb_createdAt l))
                       (getAllBookings d)) = mset (map ?row (bookings d))"
    by simp
  from ordered content show ?thesis by (simp add: listBookings_def)
qed

section \<open>Properties of \<^verbatim>\<open>createEvent\<close>\<close>

lemma cast_sections_length: "cast_sections f secs = Some ss \<Longrightarrow> length ss = length secs"
  by (induction secs arbitrary: f ss) (auto split: option.splits)

lemma cast_section_remaining: "cast_section f s = Some c \<Longrightarrow> in_remaining s = Some (remaining c) \<and> in_capacity s = Some (capacity c)"
  by (auto simp: cast_section_def split: option.splits if_splits)

lemma cast_sections_remaining:
  "cast_sections f secs = Some ss \<Longrightarrow> map in_remaining secs = map (Some \<circ> remaining) ss"
  by (induction secs arbitrary: f ss) (auto split: option.splits dest: cast_section_remaining)

lemma cast_sections_capacity:
  "cast_sections f secs = Some ss \<Longrightarrow> map in_capacity secs = map (Some \<circ> capacity) ss"
  by (induction secs arbitrary: f ss) (auto split: option.splits dest: cast_section_remaining)

lemma cast_section_Some_iff:
  "(\<exists>c. cast_section f (with_remaining s) = Some c) \<longleftrightarrow> fields_valid s"
  by (auto simp: cast_section_def with_remaining_def fields_valid_def split: option.splits)

lemma cast_sections_Some_iff:
  "(\<exists>ss. cast_sections f (map with_remaining secs) = Some ss) \<longleftrightarrow> list_all fields_valid secs"
proof (induction secs arbitrary: f)
  case Nil
  then show ?case by simp
next
  case (Cons s secs)
  show ?case
  proof (cases "cast_section f (with_remaining s)")
    case None
    with cast_section_Some_iff [of f s] show ?thesis by simp
  next
    case (Some c)
    with cast_section_Some_iff [of f s] have "fields_valid s" by blast
    with Some Cons.IH [of "Suc f"] show ?thesis by auto
  qed
qed

lemma createEvent_success:
  assumes "createEvent en d rq = (Json 201 ev, d')"
  shows "\<exists>name secs. rq_name rq = Some name \<and> name \<noteq> [] \<and> rq_sections rq = Some secs \<and> secs \<noteq> []
           \<and> save_succeeds en
           \<and> cast_sections (Suc (next_oid d)) (map with_remaining secs) = Some (sections ev)
           \<and> ev_id ev = next_oid d \<and> ev_name ev = name
           \<and> d' = d\<lparr>next_oid := Suc (next_oid d) + length secs, calls := calls d @ [SaveEvent],
                    events := events d @ [ev]\<rparr>"
  using assms by (auto simp: createEvent_def Let_def split: option.splits if_splits)

text \<open>
  Claim C10. When \<^verbatim>\<open>createEvent\<close> succeeds, each stored section has the \<^verbatim>\<open>remaining\<close>
  the request supplied for it, and its capacity only when the request supplied none.
  Whether the call succeeds does not depend on the supplied \<^verbatim>\<open>remaining\<close> at all: it
  succeeds exactly when the name and the list are not empty, every section has a name, a
  price and a capacity of at least 1, and the save is stored. So a \<^verbatim>\<open>remaining\<close> above
  the capacity or below zero is stored as it is.
\<close>

theorem createEvent_keeps_supplied_remaining:
  "(createEvent en d rq = (Json 201 ev, d') \<and> rq_sections rq = Some secs \<longrightarrow>
      map (Some \<circ> remaining) (sections ev)
        = map (\<lambda>s. case in_remaining s of Some r \<Rightarrow> Some r | None \<Rightarrow> in_capacity s) secs)
   \<and> ((\<exists>ev d'. createEvent en d rq = (Json 201 ev, d')) \<longleftrightarrow>
        (\<exists>name secs. rq_name rq = Some name \<and> name \<noteq> [] \<and> rq_sections rq = Some secs \<and> secs \<noteq> []
            \<and> list_all fields_valid secs \<and> save_succeeds en))"
proof (intro conjI impI)
  assume a: "createEvent en d rq = (Json 201 ev, d') \<and> rq_sections rq = Some secs"
  from createEvent_success [of en d rq ev d'] a
  have "cast_sections (Suc (next_oid d)) (map with_remaining secs) = Some (sections ev)" by auto
  from cast_sections_remaining [OF this]
  show "map (Some \<circ> remaining) (sections ev)
        = map (\<lambda>s. case in_remaining s of Some r \<Rightarrow> Some r | None \<Rightarrow> in_capacity s) secs"
    by (simp add: with_remaining_def comp_def)
next
  show "(\<exists>ev d'. createEvent en d rq = (Json 201 ev, d')) \<longleftrightarrow>
        (\<exists>name secs. rq_name rq = Some name \<and> name \<noteq> [] \<and> rq_sections rq = Some secs \<and> secs \<noteq> []
            \<and> list_all fields_valid secs \<and> save_succeeds en)"
  proof
    assume "\<exists>ev d'. createEvent en d rq = (Json 201 ev, d')"
    then obtain ev d' where "createEvent en d rq = (Json 201 ev, d')" by blast
    from createEvent_success [OF this] cast_sections_Some_iff
    show "\<exists>name secs. rq_name rq = Some name \<and> name \<noteq> [] \<and> rq_sections rq = Some secs \<and> secs \<noteq> []
            \<and> list_all fields_valid secs \<and> save_succeeds en"
      by blast
  next
    assume "\<exists>name secs. rq_name rq = Some name \<and> name \<noteq> [] \<and> rq_sections rq = Some secs \<and> secs \<noteq> []
            \<and> list_all fields_valid secs \<and> save_succeeds en"
    then obtain name secs where h: "rq_name rq = Some name" "name \<noteq> []" "rq_sections rq = Some secs"
      "secs \<noteq> []" "list_all fields_valid secs" "save_succeeds en" by blast
    from h(5) cast_sections_Some_iff [of "Suc (next_oid d)" secs]
    obtain ss where "cast_sections (Suc (next_oid d)) (map with_remaining secs) = Some ss" by blast
    with h show "\<exists>ev d'. createEvent en d rq = (Json 201 ev, d')"
      by (simp add: createEvent_def Let_def)
  qed
qed

text \<open>
  At a request with a \<^verbatim>\<open>remaining\<close> of 50 for capacity 10, one of \<open>-2\<close> for capacity 4
  and one section without \<^verbatim>\<open>remaining\<close>: the event is created with 50, \<open>-2\<close> and 7.
\<close>

theorem createEvent_keeps_supplied_remaining_witness:
  "createEvent (at_time 0) empty_db (event_rq [sec_in ''VIP'' 10 (Some 50), sec_in ''Pit'' 4 (Some (- 2)), sec_in ''General'' 7 None])
     = (Json 201 \<lparr>ev_id = 0, ev_name = ''Concert'', sections =
          [\<lparr>sec_id = 1, sec_name = ''VIP'', price = 100, capacity = 10, remaining = 50\<rparr>,
           \<lparr>sec_id = 2, sec_name = ''Pit'', price = 100, capacity = 4, remaining = - 2\<rparr>,
           \<lparr>sec_id = 3, sec_name = ''General'', price = 100, capacity = 7, remaining = 7\<rparr>]\<rparr>,
        \<lparr>events = [\<lparr>ev_id = 0, ev_name = ''Concert'', sections =
          [\<lparr>sec_id = 1, sec_name = ''VIP'', price = 100, capacity = 10, remaining = 50\<rparr>,
           \<lparr>sec_id = 2, sec_name = ''Pit'', price = 100, capacity = 4, remaining = - 2\<rparr>,
           \<lparr>sec_id = 3, sec_name = ''General'', price = 100, capacity = 7, remaining = 7\<rparr>]\<rparr>],
         bookings = [], next_oid = 4, calls = [SaveEvent]\<rparr>)
   \<and> map (Some \<circ> remaining)
        [\<lparr>sec_id = 1, sec_name = ''VIP'', price = 100, capacity = 10, remaining = 50\<rparr>,
         \<lparr>sec_id = 2, sec_name = ''Pit'', price = 100, capacity = 4, remaining = - 2\<rparr>,
         \<lparr>sec_id = 3, sec_name = ''General'', price = 100, capacity = 7, remaining = 7\<rparr>]
       = [Some 50, Some (- 2), Some 7]"
  using createEvent_keeps_supplied_remaining [of "at_time 0" empty_db
      "event_rq [sec_in ''VIP'' 10 (Some 50), sec_in ''Pit'' 4 (Some (- 2)), sec_in ''General'' 7 None]"
      "\<lparr>ev_id = 0, ev_name = ''Concert'', sections =
          [\<lparr>sec_id = 1, sec_name = ''VIP'', price = 100, capacity = 10, remaining = 50\<rparr>,
           \<lparr>sec_id = 2, sec_name = ''Pit'', price = 100, capacity = 4, remaining = - 2\<rparr>,
           \<lparr>sec_id = 3, sec_name = ''General'', price = 100, capacity = 7, remaining = 7\<rparr>]\<rparr>"
      "\<lparr>events = [\<lparr>ev_id = 0, ev_name = ''Concert'', sections =
          [\<lparr>sec_id = 1, sec_name = ''VIP'', price = 100, capacity = 10, remaining = 50\<rparr>,
           \<lparr>sec_id = 2, sec_name = ''Pit'', price = 100, capacity = 4, remaining = - 2\<rparr>,
           \<lparr>sec_id = 3, sec_name = ''General'', price = 100, capacity = 7, remaining = 7\<rparr>]\<rparr>],
         bookings = [], next_oid = 4, calls = [SaveEvent]\<rparr>"
      "[sec_in ''VIP'' 10 (Some 50), sec_in ''Pit'' 4 (Some (- 2)), sec_in ''General'' 7 None]"]
  by (simp add: createEvent_def event_rq_def sec_in_def at_time_def empty_db_def with_remaining_def
      cast_section_def save_succeeds_def Let_def numeral_eq_Suc)

lemma cast_sections_nth:
  "cast_sections f secs = Some ss \<Longrightarrow> i < length secs \<Longrightarrow>
     in_remaining (secs ! i) = Some (remaining (ss ! i)) \<and> in_capacity (secs ! i) = Some (capacity (ss ! i))"
proof (induction secs arbitrary: f ss i)
  case Nil
  then show ?case by simp
next
  case (Cons s secs)
  from Cons.prems(1) obtain c cs where c: "cast_section f s = Some c"
    and cs: "cast_sections (Suc f) secs = Some cs" and ss: "ss = c # cs"
    by (auto split: option.splits)
  show ?case
  proof (cases i)
    case 0
    with c ss show ?thesis by (simp add: cast_section_remaining)
  next
    case (Suc j)
    with Cons.prems(2) have "j < length secs" by simp
    from Cons.IH [OF cs this] Suc ss show ?thesis by simp
  qed
qed

lemma createEvent_reply_cases:
  "(\<exists>ev. fst (createEvent en d rq) = Json 201 ev) \<or> (\<exists>st msg. fst (createEvent en d rq) = JsonError st msg)"
  by (auto simp: createEvent_def Let_def split: option.splits)

lemma createEvent_failure:
  assumes "fst (createEvent en d rq) = JsonError st msg"
  shows "events (snd (createEvent en d rq)) = events d
       \<and> bookings (snd (createEvent en d rq)) = bookings d
       \<and> next_oid d \<le> next_oid (snd (createEvent en d rq))"
  using assms by (auto simp: createEvent_def Let_def split: option.splits if_splits)

lemma nonpositive_not_valid: "nonpositive_capacity s \<Longrightarrow> \<not> fields_valid s"
  by (auto simp: nonpositive_capacity_def fields_valid_def split: option.splits)

lemma list_ex_nonpositive_not_valid:
  "list_ex nonpositive_capacity secs \<Longrightarrow> \<not> list_all fields_valid secs"
  by (induction secs) (auto dest: nonpositive_not_valid)

lemma createEvent_invalid_sections:
  assumes "rq_sections rq = Some secs" and "\<not> list_all fields_valid secs"
  shows "events (snd (createEvent en d rq)) = events d"
    and "rq_name rq = Some name \<Longrightarrow> name \<noteq> [] \<Longrightarrow>
           fst (createEvent en d rq) = JsonError 500 ''Event validation failed''"
    and "rq_name rq = None \<or> rq_name rq = Some [] \<Longrightarrow>
           fst (createEvent en d rq) = JsonError 400 ''Name and at least one section are required''"
proof -
  from assms(2) have ne: "secs \<noteq> []" by auto
  from assms(2) cast_sections_Some_iff [of "Suc (next_oid d)" secs]
  have none: "cast_sections (Suc (next_oid d)) (map with_remaining secs) = None" by auto
  show "events (snd (createEvent en d rq)) = events d"
    using assms(1) none by (auto simp: createEvent_def Let_def split: option.splits)
  show "rq_name rq = Some name \<Longrightarrow> name \<noteq> [] \<Longrightarrow>
           fst (createEvent en d rq) = JsonError 500 ''Event validation failed''"
    using assms(1) none ne by (simp add: createEvent_def Let_def)
  show "rq_name rq = None \<or> rq_name rq = Some [] \<Longrightarrow>
           fst (createEvent en d rq) = JsonError 400 ''Name and at least one section are required''"
    using assms(1) by (auto simp: createEvent_def Let_def)
qed

text \<open>
  Claim C6, as stated, fails: a request for one section of capacity 10 with a
  \<^verbatim>\<open>remaining\<close> of 3 succeeds, and the created section has \<^verbatim>\<open>remaining\<close> 3, not 10.
\<close>

theorem createEvent_remaining_differs_counterexample:
  "createEvent (at_time 0) empty_db (event_rq [sec_in ''VIP'' 10 (Some 3)])
     = (Json 201 \<lparr>ev_id = 0, ev_name = ''Concert'', sections =
          [\<lparr>sec_id = 1, sec_name = ''VIP'', price = 100, capacity = 10, remaining = 3\<rparr>]\<rparr>,
        \<lparr>events = [\<lparr>ev_id = 0, ev_name = ''Concert'', sections =
          [\<lparr>sec_id = 1, sec_name = ''VIP'', price = 100, capacity = 10, remaining = 3\<rparr>]\<rparr>],
         bookings = [], next_oid = 2, calls = [SaveEvent]\<rparr>)"
  by code_simp

text \<open>
  Claim C6, amended. When \<^verbatim>\<open>createEvent\<close> succeeds, it has created one section for
  each section of the request, and the \<^verbatim>\<open>remaining\<close> of each is the one supplied for it,
  or its capacity when none was supplied. A request with an empty section list is
  rejected with status 400 and leaves the store as it was. A request in which some
  section has a capacity of zero or less is rejected: the reply is an error and no event
  is stored.
\<close>

theorem createEvent_remaining_or_rejection:
  assumes "rq_sections rq = Some secs"
  shows "(createEvent en d rq = (Json 201 ev, d') \<longrightarrow>
            length (sections ev) = length secs
            \<and> (\<forall>i < length secs.
                 remaining (sections ev ! i)
                   = (case in_remaining (secs ! i) of Some r \<Rightarrow> r | None \<Rightarrow> capacity (sections ev ! i))))
       \<and> (secs = [] \<longrightarrow>
            createEvent en d rq = (JsonError 400 ''Name and at least one section are required'', d))
       \<and> (list_ex nonpositive_capacity secs \<longrightarrow>
            events (snd (createEvent en d rq)) = events d
            \<and> (\<exists>status msg. fst (createEvent en d rq) = JsonError status msg))"
proof (intro conjI impI)
  assume ok: "createEvent en d rq = (Json 201 ev, d')"
  from createEvent_success [OF ok] assms
  have cs: "cast_sections (Suc (next_oid d)) (map with_remaining secs) = Some (sections ev)" by auto
  from cast_sections_length [OF cs] show len: "length (sections ev) = length secs" by simp
  show "\<forall>i < length secs.
          remaining (sections ev ! i)
            = (case in_remaining (secs ! i) of Some r \<Rightarrow> r | None \<Rightarrow> capacity (sections ev ! i))"
  proof (intro allI impI)
    fix i assume i: "i < length secs"
    then have "i < length (map with_remaining secs)" by simp
    from cast_sections_nth [OF cs this] i
    show "remaining (sections ev ! i)
            = (case in_remaining (secs ! i) of Some r \<Rightarrow> r | None \<Rightarrow> capacity (sections ev ! i))"
      by (auto simp: with_remaining_def split: option.splits)
  qed
next
  assume "secs = []"
  with assms show "createEvent en d rq = (JsonError 400 ''Name and at least one section are required'', d)"
    by (auto simp: createEvent_def split: option.splits)
next
  assume "list_ex nonpositive_capacity secs"
  then have inv: "\<not> list_all fields_valid secs" by (rule list_ex_nonpositive_not_valid)
  from createEvent_invalid_sections(1) [OF assms inv]
  show "events (snd (createEvent en d rq)) = events d" .
  show "\<exists>status msg. fst (createEvent en d rq) = JsonError status msg"
  proof (cases "rq_name rq = None \<or> rq_name rq = Some []")
    case True
    with createEvent_invalid_sections(3) [OF assms inv] show ?thesis by blast
  next
    case False
    then obtain name where "rq_name rq = Some name" "name \<noteq> []" by auto
    with createEvent_invalid_sections(2) [OF assms inv] show ?thesis by blast
  qed
qed

text \<open>
  At three requests against the fresh store: sections of capacity 10 (no \<^verbatim>\<open>remaining\<close>)
  and capacity 4 (\<^verbatim>\<open>remaining\<close> 9) are created with 10 and 9; the empty list is answered
  with 400; a request with a section of capacity 0 gets an error reply and nothing is
  stored.
\<close>

theorem createEvent_remaining_or_rejection_witness:
  "createEvent (at_time 0) empty_db (event_rq [sec_in ''VIP'' 10 None, sec_in ''Pit'' 4 (Some 9)])
     = (Json 201 \<lparr>ev_id = 0, ev_name = ''Concert'', sections =
          [\<lparr>sec_id = 1, sec_name = ''VIP'', price = 100, capacity = 10, remaining = 10\<rparr>,
           \<lparr>sec_id = 2, sec_name = ''Pit'', price = 100, capacity = 4, remaining = 9\<rparr>]\<rparr>,
        \<lparr>events = [\<lparr>ev_id = 0, ev_name = ''Concert'', sections =
          [\<lparr>sec_id = 1, sec_name = ''VIP'', price = 100, capacity = 10, remaining = 10\<rparr>,
           \<lparr>sec_id = 2, sec_name = ''Pit'', price = 100, capacity = 4, remaining = 9\<rparr>]\<rparr>],
         bookings = [], next_oid = 3, calls = [SaveEvent]\<rparr>)
   \<and> createEvent (at_time 0) empty_db (event_rq [])
     = (JsonError 400 ''Name and at least one section are required'', empty_db)
   \<and> list_ex nonpositive_capacity [sec_in ''VIP'' 10 None, sec_in ''Pit'' 0 None]
   \<and> events (snd (createEvent (at_time 0) empty_db (event_rq [sec_in ''VIP'' 10 None, sec_in ''Pit'' 0 None]))) = []
   \<and> (\<exists>status msg.
        fst (createEvent (at_time 0) empty_db (event_rq [sec_in ''VIP'' 10 None, sec_in ''Pit'' 0 None]))
          = JsonError status msg)"
proof -
  have created: "createEvent (at_time 0) empty_db (event_rq [sec_in ''VIP'' 10 None, sec_in ''Pit'' 4 (Some 9)])
     = (Json 201 \<lparr>ev_id = 0, ev_name = ''Concert'', sections =
          [\<lparr>sec_id = 1, sec_name = ''VIP'', price = 100, capacity = 10, remaining = 10\<rparr>,
           \<lparr>sec_id = 2, sec_name = ''Pit'', price = 100, capacity = 4, remaining = 9\<rparr>]\<rparr>,
        \<lparr>events = [\<lparr>ev_id = 0, ev_name = ''Concert'', sections =
          [\<lparr>sec_id = 1, sec_name = ''VIP'', price = 100, capacity = 10, remaining = 10\<rparr>,
           \<lparr>sec_id = 2, sec_name = ''Pit'', price = 100, capacity = 4, remaining = 9\<rparr>]\<rparr>],
         bookings = [], next_oid = 3, calls = [SaveEvent]\<rparr>)"
    by code_simp
  have b: "rq_sections (event_rq []) = Some []"
    by (simp add: event_rq_def)
  have c: "rq_sections (event_rq [sec_in ''VIP'' 10 None, sec_in ''Pit'' 0 None])
             = Some [sec_in ''VIP'' 10 None, sec_in ''Pit'' 0 None]"
    by (simp add: event_rq_def)
  have np: "list_ex nonpositive_capacity [sec_in ''VIP'' 10 None, sec_in ''Pit'' 0 None]"
    by (simp add: nonpositive_capacity_def sec_in_def)
  have e0: "events empty_db = []" by (simp add: empty_db_def)
  note A = createEvent_remaining_or_rejection [OF b, of "at_time 0" empty_db]
  note B = createEvent_remaining_or_rejection [OF c, of "at_time 0" empty_db]
  from A have "createEvent (at_time 0) empty_db (event_rq [])
     = (JsonError 400 ''Name and at least one section are required'', empty_db)" by simp
  moreover from B [THEN conjunct2, THEN conjunct2, rule_format, OF np] e0
  have "events (snd (createEvent (at_time 0) empty_db (event_rq [sec_in ''VIP'' 10 None, sec_in ''Pit'' 0 None]))) = []
   \<and> (\<exists>status msg.
        fst (createEvent (at_time 0) empty_db (event_rq [sec_in ''VIP'' 10 None, sec_in ''Pit'' 0 None]))
          = JsonError status msg)" by simp
  ultimately show ?thesis using created np by simp
qed

section \<open>Properties of \<^verbatim>\<open>bookTicket\<close> and \<^verbatim>\<open>createBooking\<close>\<close>

lemma findOneAndUpdate_None_iff:
  "findOneAndUpdate e s q evs = None \<longleftrightarrow> \<not> list_ex (matches e s q) evs"
  by (induction evs) auto

text \<open>
  Claim C3. A \<^verbatim>\<open>bookTicket\<close> call fails with ``Not enough seats available'' exactly when
  the conditional update did not apply; such a call leaves the events, and so every
  section's \<^verbatim>\<open>remaining\<close>, and the bookings as they were. A call that changes the
  bookings has applied the update first, returns the booking and has appended exactly it.
\<close>

theorem bookTicket_failed_update:
  assumes "bookTicket en d e s q = (r, d')"
  shows "(r = Inl NotEnoughSeats \<longleftrightarrow> findOneAndUpdate e s q (events d) = None)
       \<and> (r = Inl NotEnoughSeats \<longrightarrow> events d' = events d \<and> bookings d' = bookings d)
       \<and> (bookings d' \<noteq> bookings d \<longrightarrow>
            (\<exists>u. findOneAndUpdate e s q (events d) = Some (u, events d'))
            \<and> (\<exists>b. r = Inr b \<and> bookings d' = bookings d @ [b]))"
  using assms by (auto simp: bookTicket_def Let_def split: option.splits if_splits)

text \<open>
  In a store with one section of capacity 3: a call for 4 seats fails and changes neither
  events nor bookings; a call for 2 seats appends its booking after the update.
\<close>

theorem bookTicket_failed_update_witness:
  "fst (bookTicket (at_time 5) (one_section_db 3) 0 1 4) = Inl NotEnoughSeats
   \<and> findOneAndUpdate 0 1 4 (events (one_section_db 3)) = None
   \<and> events (snd (bookTicket (at_time 5) (one_section_db 3) 0 1 4)) = events (one_section_db 3)
   \<and> bookings (snd (bookTicket (at_time 5) (one_section_db 3) 0 1 4)) = bookings (one_section_db 3)
   \<and> bookings (snd (bookTicket (at_time 5) (one_section_db 3) 0 1 2)) \<noteq> bookings (one_section_db 3)
   \<and> (\<exists>u. findOneAndUpdate 0 1 2 (events (one_section_db 3))
            = Some (u, events (snd (bookTicket (at_time 5) (one_section_db 3) 0 1 2))))"
proof -
  have fail: "fst (bookTicket (at_time 5) (one_section_db 3) 0 1 4) = Inl NotEnoughSeats"
    by code_simp
  have grow: "bookings (snd (bookTicket (at_time 5) (one_section_db 3) 0 1 2)) \<noteq> bookings (one_section_db 3)"
    by code_simp
  have a: "bookTicket (at_time 5) (one_section_db 3) 0 1 4
      = (fst (bookTicket (at_time 5) (one_section_db 3) 0 1 4),
         snd (bookTicket (at_time 5) (one_section_db 3) 0 1 4))"
    by simp
  have b: "bookTicket (at_time 5) (one_section_db 3) 0 1 2
      = (fst (bookTicket (at_time 5) (one_section_db 3) 0 1 2),
         snd (bookTicket (at_time 5) (one_section_db 3) 0 1 2))"
    by simp
  from fail grow bookTicket_failed_update [OF a] bookTicket_failed_update [OF b]
  show ?thesis by blast
qed

text \<open>
  Claim C8. A booking request whose \<^verbatim>\<open>qty\<close> is zero or negative is answered with status
  400 by one of the two guards of \<^verbatim>\<open>createBooking\<close>, and the store comes back as it
  was, its record of issued calls included: \<^verbatim>\<open>bookTicket\<close> is not called.
\<close>

theorem createBooking_rejects_nonpositive_qty:
  assumes "rq_qty rq = Some q" and "q \<le> 0"
  shows "createBooking en d rq =
           (JsonError 400
              (if rq_eventId rq = None \<or> rq_sectionId rq = None \<or> q = 0
               then ''Missing required fields: eventId, sectionId, qty''
               else ''Quantity must be at least 1''), d)"
  using assms by (auto simp: createBooking_def split: option.splits)

theorem createBooking_rejects_nonpositive_qty_witness:
  "createBooking (at_time 7) (one_section_db 3) (book_rq 0 1 (- 2))
     = (JsonError 400 ''Quantity must be at least 1'', one_section_db 3)
   \<and> createBooking (at_time 7) (one_section_db 3) (book_rq 0 1 0)
     = (JsonError 400 ''Missing required fields: eventId, sectionId, qty'', one_section_db 3)"
  using createBooking_rejects_nonpositive_qty [of "book_rq 0 1 (- 2)" "- 2" "at_time 7" "one_section_db 3"]
    createBooking_rejects_nonpositive_qty [of "book_rq 0 1 0" 0 "at_time 7" "one_section_db 3"]
  by (simp add: book_rq_def)

text \<open>
  Claim C1, evaluated. The event has the sections VIP (id 1, capacity 1, remaining 1) and
  General (id 2, capacity 5, remaining 5). \<^verbatim>\<open>bookTicket\<close> for 2 seats of section 1
  returns a booking of 2 seats of section 1, although section 1 has one seat; section 1
  keeps its seat and section 2 goes from 5 to 3.
\<close>

theorem bookTicket_draws_on_other_section:
  "map (\<lambda>ev. map (\<lambda>s. (sec_id s, capacity s, remaining s)) (sections ev)) (events two_sections_db)
     = [[(1, 1, 1), (2, 5, 5)]]
   \<and> fst (bookTicket (at_time 5) two_sections_db 0 1 2)
     = Inr \<lparr>bk_id = 3, bk_eventId = 0, bk_sectionId = 1, bk_qty = 2, bk_createdAt = 5\<rparr>
   \<and> map (\<lambda>ev. map (\<lambda>s. (sec_id s, capacity s, remaining s)) (sections ev))
       (events (snd (bookTicket (at_time 5) two_sections_db 0 1 2)))
     = [[(1, 1, 1), (2, 5, 3)]]"
  by code_simp

text \<open>
  Claim C5, evaluated. In a store with one event (id 0) of one section (id 1, 3 seats),
  a request for 4 seats of that section, a request naming the unknown section 9 and a
  request naming the unknown event 8 receive the same answer: status 400 with the
  message of \<^verbatim>\<open>bookTicket\<close>'s only \<^verbatim>\<open>throw\<close>.
\<close>

theorem createBooking_unknown_ids_same_reply:
  "fst (createBooking (at_time 5) (one_section_db 3) (book_rq 0 1 4))
     = JsonError 400 ''Not enough seats available''
   \<and> fst (createBooking (at_time 5) (one_section_db 3) (book_rq 0 9 1))
     = JsonError 400 ''Not enough seats available''
   \<and> fst (createBooking (at_time 5) (one_section_db 3) (book_rq 8 1 1))
     = JsonError 400 ''Not enough seats available''"
  by code_simp

text \<open>
  Claim C7, as stated, fails: there is no retry. With a first save that fails and a
  second that would be stored, \<^verbatim>\<open>createBooking\<close> answers with status 500 after a single
  save; no booking is stored and the section stays at 2 of its 3 seats.
\<close>

theorem createBooking_no_retry_counterexample:
  "createBooking \<lparr>now = 5, saves = [False, True]\<rparr> (one_section_db 3) (book_rq 0 1 1)
     = (JsonError 500 ''Internal Server Error'',
        \<lparr>events = [\<lparr>ev_id = 0, ev_name = ''Concert'', sections =
            [\<lparr>sec_id = 1, sec_name = ''VIP'', price = 100, capacity = 3, remaining = 2\<rparr>]\<rparr>],
         bookings = [], next_oid = 3,
         calls = [SaveEvent, FindOneAndUpdate 0 1 1, SaveBooking 0 1 1]\<rparr>)"
  by code_simp

text \<open>
  Claim C7, amended. When the conditional update applies and the save of the booking
  fails in the store, the save has been attempted exactly once: \<^verbatim>\<open>bookTicket\<close> throws the
  storage error and \<^verbatim>\<open>createBooking\<close> answers with status 500, ``Internal Server Error''.
  The store then holds the updated events (the decrement stays), the bookings as they
  were, and one update call followed by one save call.
\<close>

theorem createBooking_failed_save:
  assumes "1 \<le> q" and "findOneAndUpdate e s q (events d) = Some (u, evs)" and "\<not> save_succeeds en"
  shows "bookTicket en d e s q
           = (Inl StorageError,
              d\<lparr>events := evs, next_oid := Suc (next_oid d),
                calls := calls d @ [FindOneAndUpdate e s q, SaveBooking e s q]\<rparr>)
       \<and> createBooking en d (book_rq e s q)
           = (JsonError 500 ''Internal Server Error'',
              d\<lparr>events := evs, next_oid := Suc (next_oid d),
                calls := calls d @ [FindOneAndUpdate e s q, SaveBooking e s q]\<rparr>)"
  using assms by (auto simp: createBooking_def bookTicket_def book_rq_def Let_def)

theorem createBooking_failed_save_witness:
  "createBooking \<lparr>now = 5, saves = [False]\<rparr> (one_section_db 3) (book_rq 0 1 2)
     = (JsonError 500 ''Internal Server Error'',
        \<lparr>events = [\<lparr>ev_id = 0, ev_name = ''Concert'', sections =
            [\<lparr>sec_id = 1, sec_name = ''VIP'', price = 100, capacity = 3, remaining = 1\<rparr>]\<rparr>],
         bookings = [], next_oid = 3,
         calls = [SaveEvent, FindOneAndUpdate 0 1 2, SaveBooking 0 1 2]\<rparr>)"
proof -
  have d: "one_section_db 3 = \<lparr>events = [\<lparr>ev_id = 0, ev_name = ''Concert'', sections =
            [\<lparr>sec_id = 1, sec_name = ''VIP'', price = 100, capacity = 3, remaining = 3\<rparr>]\<rparr>],
         bookings = [], next_oid = 2, calls = [SaveEvent]\<rparr>"
    by code_simp
  have f: "findOneAndUpdate 0 1 2 (events (one_section_db 3))
     = Some (\<lparr>ev_id = 0, ev_name = ''Concert'', sections =
            [\<lparr>sec_id = 1, sec_name = ''VIP'', price = 100, capacity = 3, remaining = 1\<rparr>]\<rparr>,
          [\<lparr>ev_id = 0, ev_name = ''Concert'', sections =
            [\<lparr>sec_id = 1, sec_name = ''VIP'', price = 100, capacity = 3, remaining = 1\<rparr>]\<rparr>])"
    by code_simp
  have n: "\<not> save_succeeds \<lparr>now = 5, saves = [False]\<rparr>"
    by (simp add: save_succeeds_def)
  have q: "(1::int) \<le> 2" by simp
  from createBooking_failed_save [OF q f n] show ?thesis by (simp add: d)
qed

section \<open>\<^verbatim>\<open>bookTicket\<close> on an event of a single section\<close>

lemma apply_inc_ev_id [simp]: "ev_id (apply_inc q ev) = ev_id ev"
  by (simp add: apply_inc_def split: option.splits)

lemma length_sections_apply_inc [simp]: "length (sections (apply_inc q ev)) = length (sections ev)"
  by (simp add: apply_inc_def split: option.splits)

lemma matches_single:
  "sections ev = [s] \<Longrightarrow> matches e sid q ev \<longleftrightarrow> ev_id ev = e \<and> sec_id s = sid \<and> q \<le> remaining s"
  by (auto simp: matches_def)

lemma apply_inc_single:
  "sections ev = [s] \<Longrightarrow> q \<le> remaining s \<Longrightarrow>
     sections (apply_inc q ev) = [s\<lparr>remaining := remaining s - q\<rparr>]"
  by (simp add: apply_inc_def positional_def inc_remaining_def)

lemma matches_ev_id: "matches e s q ev \<Longrightarrow> ev_id ev = e"
  by (simp add: matches_def)

lemma findById_None_iff: "findById e evs = None \<longleftrightarrow> e \<notin> set (map ev_id evs)"
  by (auto simp: findById_def find_None_iff)

lemma findById_Some: "findById e evs = Some ev \<Longrightarrow> ev \<in> set evs \<and> ev_id ev = e"
  by (auto simp: findById_def find_Some_iff)

lemma findById_distinct:
  "distinct (map ev_id evs) \<Longrightarrow> ev \<in> set evs \<Longrightarrow> findById (ev_id ev) evs = Some ev"
  by (induction evs) (auto simp: findById_def)

lemma findOneAndUpdate_absent:
  "e \<notin> set (map ev_id evs) \<Longrightarrow> findOneAndUpdate e s q evs = None"
  by (induction evs) (auto dest: matches_ev_id)

lemma map_upd_absent:
  "e \<notin> set (map ev_id evs) \<Longrightarrow> map (\<lambda>x. if ev_id x = e then f x else x) evs = evs"
  by (induction evs) auto

lemma findOneAndUpdate_distinct:
  "distinct (map ev_id evs) \<Longrightarrow>
     findOneAndUpdate e s q evs =
       (case findById e evs of
          None \<Rightarrow> None
        | Some ev \<Rightarrow>
            if matches e s q ev
            then Some (apply_inc q ev, map (\<lambda>x. if ev_id x = e then apply_inc q x else x) evs)
            else None)"
proof (induction evs)
  case Nil
  then show ?case by (simp add: findById_def)
next
  case (Cons ev evs)
  show ?case
  proof (cases "ev_id ev = e")
    case True
    with Cons.prems have absent: "e \<notin> set (map ev_id evs)" by auto
    from True have "findById e (ev # evs) = Some ev" by (simp add: findById_def)
    with True absent show ?thesis
      by (simp add: findOneAndUpdate_absent map_upd_absent)
  next
    case False
    then have nm: "\<not> matches e s q ev" by (auto dest: matches_ev_id)
    from False have fb: "findById e (ev # evs) = findById e evs" by (simp add: findById_def)
    from Cons.prems have "distinct (map ev_id evs)" by simp
    from Cons.IH [OF this] nm fb False show ?thesis
      by (auto split: option.splits)
  qed
qed

lemma findById_apply_inc:
  "findById e' (map (\<lambda>x. if ev_id x = e then apply_inc q x else x) evs)
     = (if e' = e then map_option (apply_inc q) (findById e evs) else findById e' evs)"
  by (induction evs) (auto simp: findById_def)

lemma map_ev_id_apply_inc:
  "map ev_id (map (\<lambda>x. if ev_id x = e then apply_inc q x else x) evs) = map ev_id evs"
  by (induction evs) auto

text \<open>\<^verbatim>\<open>bookTicket\<close> over a store whose event ids are pairwise different.\<close>

lemma bookTicket_no_match:
  assumes "distinct (map ev_id (events d))"
    and "findById e (events d) = None \<or> (\<exists>ev. findById e (events d) = Some ev \<and> \<not> matches e s q ev)"
  shows "bookTicket en d e s q = (Inl NotEnoughSeats, d\<lparr>calls := calls d @ [FindOneAndUpdate e s q]\<rparr>)"
  using assms by (auto simp: bookTicket_def findOneAndUpdate_distinct)

lemma bookTicket_match:
  assumes "distinct (map ev_id (events d))"
    and "findById e (events d) = Some ev" and "matches e s q ev"
  shows "bookTicket en d e s q =
     (let b = \<lparr>bk_id = next_oid d, bk_eventId = e, bk_sectionId = s, bk_qty = q, bk_createdAt = now en\<rparr>;
          d2 = d\<lparr>events := map (\<lambda>x. if ev_id x = e then apply_inc q x else x) (events d),
                 next_oid := Suc (next_oid d),
                 calls := calls d @ [FindOneAndUpdate e s q, SaveBooking e s q]\<rparr>
      in if q < 1 then (Inl ValidationError, d2)
         else if save_succeeds en then (Inr b, d2\<lparr>bookings := bookings d @ [b]\<rparr>)
         else (Inl StorageError, d2))"
  using assms by (auto simp: bookTicket_def findOneAndUpdate_distinct Let_def)

lemma sole_sectionD:
  assumes "sole_section d e sid r"
  obtains ev s where "distinct (map ev_id (events d))" "findById e (events d) = Some ev"
    "sections ev = [s]" "sec_id s = sid" "remaining s = r"
  using assms by (auto simp: sole_section_def split: option.splits list.splits)

lemma sole_sectionI:
  "distinct (map ev_id (events d)) \<Longrightarrow> findById e (events d) = Some ev \<Longrightarrow> sections ev = [s]
     \<Longrightarrow> sec_id s = sid \<Longrightarrow> remaining s = r \<Longrightarrow> sole_section d e sid r"
  by (simp add: sole_section_def)

lemma sole_seats_left: "sole_section d e sid r \<Longrightarrow> seats_left d e = [r]"
  by (erule sole_sectionD) (simp add: seats_left_def)

lemma sole_step_short:
  assumes "sole_section d e sid r" and "r < q"
  shows "bookTicket en d e sid q = (Inl NotEnoughSeats, d\<lparr>calls := calls d @ [FindOneAndUpdate e sid q]\<rparr>)"
    and "sole_section (d\<lparr>calls := calls d @ [FindOneAndUpdate e sid q]\<rparr>) e sid r"
proof -
  from assms(1) obtain ev s where h: "distinct (map ev_id (events d))" "findById e (events d) = Some ev"
    "sections ev = [s]" "sec_id s = sid" "remaining s = r" by (rule sole_sectionD)
  from h(3,5) assms(2) have "\<not> matches e sid q ev" by (simp add: matches_single)
  with h(1,2) show "bookTicket en d e sid q = (Inl NotEnoughSeats, d\<lparr>calls := calls d @ [FindOneAndUpdate e sid q]\<rparr>)"
    by (intro bookTicket_no_match) auto
  from assms(1) show "sole_section (d\<lparr>calls := calls d @ [FindOneAndUpdate e sid q]\<rparr>) e sid r"
    by (simp add: sole_section_def)
qed

lemma sole_step_enough:
  assumes "sole_section d e sid r" and "q \<le> r" and "bookTicket en d e sid q = (res, d')"
  shows "sole_section d' e sid (r - q)"
    and "res = (if q < 1 then Inl ValidationError
                else if save_succeeds en
                then Inr \<lparr>bk_id = next_oid d, bk_eventId = e, bk_sectionId = sid, bk_qty = q,
                          bk_createdAt = now en\<rparr>
                else Inl StorageError)"
proof -
  from assms(1) obtain ev s where h: "distinct (map ev_id (events d))" "findById e (events d) = Some ev"
    "sections ev = [s]" "sec_id s = sid" "remaining s = r" by (rule sole_sectionD)
  from findById_Some [OF h(2)] have eid: "ev_id ev = e" by simp
  from h(3,4,5) assms(2) eid have m: "matches e sid q ev" by (simp add: matches_single)
  let ?evs = "map (\<lambda>x. if ev_id x = e then apply_inc q x else x) (events d)"
  from bookTicket_match [OF h(1,2) m, of en] assms(3)
  have ev': "events d' = ?evs"
    and res: "res = (if q < 1 then Inl ValidationError
                else if save_succeeds en
                then Inr \<lparr>bk_id = next_oid d, bk_eventId = e, bk_sectionId = sid, bk_qty = q,
                          bk_createdAt = now en\<rparr>
                else Inl StorageError)"
    by (auto simp: Let_def split: if_splits)
  from res show "res = (if q < 1 then Inl ValidationError
                else if save_succeeds en
                then Inr \<lparr>bk_id = next_oid d, bk_eventId = e, bk_sectionId = sid, bk_qty = q,
                          bk_createdAt = now en\<rparr>
                else Inl StorageError)" .
  have d: "distinct (map ev_id (events d'))"
    using h(1) unfolding ev' map_ev_id_apply_inc .
  have f: "findById e (events d') = Some (apply_inc q ev)"
    using h(2) by (simp add: ev' findById_apply_inc)
  from h(3,5) assms(2) have s: "sections (apply_inc q ev) = [s\<lparr>remaining := remaining s - q\<rparr>]"
    by (simp add: apply_inc_single)
  from d f s h(4,5) show "sole_section d' e sid (r - q)"
    by (intro sole_sectionI [where ev = "apply_inc q ev" and s = "s\<lparr>remaining := remaining s - q\<rparr>"]) auto
qed

lemma book_seq_sole:
  assumes "sole_section d e sid r" and "0 \<le> r" and "list_all (\<lambda>(en, q). 1 \<le> q) cs"
    and "book_seq d e sid cs = (rs, d')"
  shows "\<exists>r'. sole_section d' e sid r' \<and> 0 \<le> r' \<and> r' \<le> r \<and> sold rs \<le> r - r'"
  using assms
proof (induction cs arbitrary: d r rs d')
  case Nil
  then show ?case by auto
next
  case (Cons c cs)
  obtain en q where c: "c = (en, q)" by (cases c)
  obtain res d1 where bt: "bookTicket en d e sid q = (res, d1)" by (cases "bookTicket en d e sid q")
  obtain rs1 d2 where bs: "book_seq d1 e sid cs = (rs1, d2)" by (cases "book_seq d1 e sid cs")
  from Cons.prems(4) c bt bs have out: "rs = res # rs1" "d' = d2" by auto
  from Cons.prems(3) c have q: "1 \<le> q" and rest: "list_all (\<lambda>(en, q). 1 \<le> q) cs" by auto
  show ?case
  proof (cases "q \<le> r")
    case True
    from sole_step_enough [OF Cons.prems(1) True bt]
    have s1: "sole_section d1 e sid (r - q)"
      and res: "res = (if save_succeeds en
                then Inr \<lparr>bk_id = next_oid d, bk_eventId = e, bk_sectionId = sid, bk_qty = q,
                          bk_createdAt = now en\<rparr>
                else Inl StorageError)"
      using q by auto
    from True have "0 \<le> r - q" by simp
    from Cons.IH [OF s1 this rest bs]
    obtain r' where r': "sole_section d2 e sid r'" "0 \<le> r'" "r' \<le> r - q" "sold rs1 \<le> r - q - r'" by blast
    from res q have "sold (res # rs1) \<le> q + sold rs1" by (cases "save_succeeds en") auto
    with r' out q show ?thesis by (intro exI [of _ r']) auto
  next
    case False
    then have lt: "r < q" by simp
    from sole_step_short(1) [OF Cons.prems(1) lt, of en] bt
    have res: "res = Inl NotEnoughSeats"
      and d1: "d1 = d\<lparr>calls := calls d @ [FindOneAndUpdate e sid q]\<rparr>" by auto
    from sole_step_short(2) [OF Cons.prems(1) lt] d1
    have s1: "sole_section d1 e sid r" by simp
    from Cons.IH [OF s1 Cons.prems(2) rest bs]
    obtain r' where r': "sole_section d2 e sid r'" "0 \<le> r'" "r' \<le> r" "sold rs1 \<le> r - r'" by blast
    with res out show ?thesis by (intro exI [of _ r']) auto
  qed
qed

lemma findById_append_fresh:
  "e \<notin> set (map ev_id evs) \<Longrightarrow> ev_id ev = e \<Longrightarrow> findById e (evs @ [ev]) = Some ev"
  by (induction evs) (auto simp: findById_def)

lemma wf_ids_fresh: "wf_ids d \<Longrightarrow> next_oid d \<notin> set (map ev_id (events d))"
  by (auto simp: wf_ids_def list_all_iff)

lemma createEvent_sole:
  assumes "wf_ids d0" and "createEvent en0 d0 rq = (Json 201 ev, d1)"
    and "rq_sections rq = Some [sin]" and "in_remaining sin = None" and "in_capacity sin = Some C"
  obtains s where "sections ev = [s]" "capacity s = C" "remaining s = C"
    "sole_section d1 (ev_id ev) (sec_id s) C" "1 \<le> C"
proof -
  from createEvent_success [OF assms(2)] assms(3)
  have cs: "cast_sections (Suc (next_oid d0)) [with_remaining sin] = Some (sections ev)"
    and eid: "ev_id ev = next_oid d0"
    and d1: "events d1 = events d0 @ [ev]"
    by auto
  from cs obtain s where s: "cast_section (Suc (next_oid d0)) (with_remaining sin) = Some s"
    and ss: "sections ev = [s]"
    by (auto split: option.splits)
  from cast_section_remaining [OF s] assms(4,5)
  have rc: "remaining s = C" "capacity s = C" by (auto simp: with_remaining_def)
  from s rc have pos: "1 \<le> C" by (auto simp: cast_section_def split: option.splits if_splits)
  from wf_ids_fresh [OF assms(1)] eid have fresh: "ev_id ev \<notin> set (map ev_id (events d0))" by simp
  from assms(1) fresh have dist: "distinct (map ev_id (events d1))" by (simp add: d1 wf_ids_def)
  from fresh have fb: "findById (ev_id ev) (events d1) = Some ev"
    by (simp add: d1 findById_append_fresh)
  from dist fb ss rc have "sole_section d1 (ev_id ev) (sec_id s) C"
    by (intro sole_sectionI [where ev = ev and s = s]) auto
  with ss rc pos that show thesis by blast
qed

lemma list_all_take: "list_all P xs \<Longrightarrow> list_all P (take n xs)"
  by (auto simp: list_all_iff dest: in_set_takeD)

lemma sole_sell_one:
  assumes "sole_section d e sid r" and "1 \<le> r" and "save_succeeds en"
  obtains b d' where "bookTicket en d e sid 1 = (Inr b, d')" "sole_section d' e sid (r - 1)"
proof -
  obtain res d' where bt: "bookTicket en d e sid 1 = (res, d')" by (cases "bookTicket en d e sid 1")
  from sole_step_enough [OF assms(1,2) bt] assms(3)
  have "sole_section d' e sid (r - 1)" and "\<exists>b. res = Inr b" by auto
  with bt that show thesis by blast
qed

lemma four_calls_on_three_seats:
  assumes "sole_section d e sid 3" and "save_succeeds e1" and "save_succeeds e2" and "save_succeeds e3"
  shows "\<exists>b1 b2 b3 d'. book_seq d e sid [(e1, 1), (e2, 1), (e3, 1), (e4, 1)]
            = ([Inr b1, Inr b2, Inr b3, Inl NotEnoughSeats], d') \<and> seats_left d' e = [0]"
proof -
  have le3: "(1::int) \<le> 3" and le2: "(1::int) \<le> 2" and le1: "(1::int) \<le> 1" by simp_all
  from sole_sell_one [OF assms(1) le3 assms(2)]
  obtain b1 da where a: "bookTicket e1 d e sid 1 = (Inr b1, da)" "sole_section da e sid (3 - 1)" by metis
  from a(2) have a2: "sole_section da e sid 2" by simp
  from sole_sell_one [OF a2 le2 assms(3)]
  obtain b2 db where b: "bookTicket e2 da e sid 1 = (Inr b2, db)" "sole_section db e sid (2 - 1)" by metis
  from b(2) have b2: "sole_section db e sid 1" by simp
  from sole_sell_one [OF b2 le1 assms(4)]
  obtain b3 dc where c: "bookTicket e3 db e sid 1 = (Inr b3, dc)" "sole_section dc e sid (1 - 1)" by metis
  from c(2) have c2: "sole_section dc e sid 0" by simp
  have lt: "(0::int) < 1" by simp
  note d = sole_step_short [OF c2 lt]
  from a(1) b(1) c(1) d(1) [of e4]
  have "book_seq d e sid [(e1, 1), (e2, 1), (e3, 1), (e4, 1)]
          = ([Inr b1, Inr b2, Inr b3, Inl NotEnoughSeats], dc\<lparr>calls := calls dc @ [FindOneAndUpdate e sid 1]\<rparr>)"
    by simp
  moreover from sole_seats_left [OF d(2)]
  have "seats_left (dc\<lparr>calls := calls dc @ [FindOneAndUpdate e sid 1]\<rparr>) e = [0]" .
  ultimately show ?thesis by blast
qed

text \<open>
  Claim C2, as stated, fails: the section of \<open>oversized_db\<close> was created with capacity 3
  and a \<^verbatim>\<open>remaining\<close> of 5, so it starts outside \<open>[0, 3]\<close>, and four calls for one seat
  each all succeed: 4 seats sold of a capacity of 3.
\<close>

theorem oversell_counterexample:
  "map (\<lambda>ev. map (\<lambda>s. (sec_id s, capacity s, remaining s)) (sections ev)) (events oversized_db)
     = [[(1, 3, 5)]]
   \<and> sold (fst (book_seq oversized_db 0 1 [(at_time 1, 1), (at_time 2, 1), (at_time 3, 1), (at_time 4, 1)]))
     = 4
   \<and> seats_left (snd (book_seq oversized_db 0 1
        [(at_time 1, 1), (at_time 2, 1), (at_time 3, 1), (at_time 4, 1)])) 0 = [1]"
  by code_simp

text \<open>
  Claim C2, amended. Let an event be created with a single section of capacity \<open>C\<close> and
  no \<^verbatim>\<open>remaining\<close> of its own, in a store whose event ids are in order (\<open>wf_ids\<close>,
  which holds in every state reached from the empty store). The section
  starts with \<^verbatim>\<open>remaining\<close> \<open>C\<close>. For every sequence of \<^verbatim>\<open>bookTicket\<close> calls against it,
  each for at least one seat, and after every number of steps of it, the seats of the
  calls that returned a booking add up to at most \<open>C\<close> and \<^verbatim>\<open>remaining\<close> is between 0
  and \<open>C\<close>. With \<open>C = 3\<close>, four calls for one seat each, the saves of the first three
  being stored: three bookings, then ``Not enough seats available'', and \<^verbatim>\<open>remaining\<close>
  is 0.
\<close>

theorem single_section_no_oversell:
  assumes "wf_ids d0"
    and "createEvent en0 d0 rq = (Json 201 ev, d1)"
    and "rq_sections rq = Some [sin]" and "in_remaining sin = None" and "in_capacity sin = Some C"
    and "list_all (\<lambda>(en, q). 1 \<le> q) cs"
  shows "\<exists>s. sections ev = [s] \<and> capacity s = C \<and> remaining s = C
            \<and> (\<forall>n. case book_seq d1 (ev_id ev) (sec_id s) (take n cs) of
                     (rs, d2) \<Rightarrow> sold rs \<le> C
                                \<and> (\<exists>r. seats_left d2 (ev_id ev) = [r] \<and> 0 \<le> r \<and> r \<le> C))
            \<and> (C = 3 \<and> save_succeeds e1 \<and> save_succeeds e2 \<and> save_succeeds e3 \<longrightarrow>
                 (\<exists>b1 b2 b3 d2.
                    book_seq d1 (ev_id ev) (sec_id s) [(e1, 1), (e2, 1), (e3, 1), (e4, 1)]
                      = ([Inr b1, Inr b2, Inr b3, Inl NotEnoughSeats], d2)
                    \<and> seats_left d2 (ev_id ev) = [0]))"
proof -
  from assms(1-5) obtain s where s: "sections ev = [s]" "capacity s = C" "remaining s = C"
    "sole_section d1 (ev_id ev) (sec_id s) C" "1 \<le> C"
    by (rule createEvent_sole)
  have steps: "case book_seq d1 (ev_id ev) (sec_id s) (take n cs) of
                 (rs, d2) \<Rightarrow> sold rs \<le> C \<and> (\<exists>r. seats_left d2 (ev_id ev) = [r] \<and> 0 \<le> r \<and> r \<le> C)" for n
  proof -
    obtain rs d2 where run: "book_seq d1 (ev_id ev) (sec_id s) (take n cs) = (rs, d2)"
      by (cases "book_seq d1 (ev_id ev) (sec_id s) (take n cs)")
    from s(5) have "0 \<le> C" by simp
    from book_seq_sole [OF s(4) this list_all_take [OF assms(6)] run]
    obtain r' where r': "sole_section d2 (ev_id ev) (sec_id s) r'" "0 \<le> r'" "r' \<le> C" "sold rs \<le> C - r'" by blast
    from sole_seats_left [OF r'(1)] r'(2,3,4) run show ?thesis by auto
  qed
  have scenario: "C = 3 \<and> save_succeeds e1 \<and> save_succeeds e2 \<and> save_succeeds e3 \<longrightarrow>
                 (\<exists>b1 b2 b3 d2.
                    book_seq d1 (ev_id ev) (sec_id s) [(e1, 1), (e2, 1), (e3, 1), (e4, 1)]
                      = ([Inr b1, Inr b2, Inr b3, Inl NotEnoughSeats], d2)
                    \<and> seats_left d2 (ev_id ev) = [0])"
    using four_calls_on_three_seats s(4) by blast
  from s(1-3) steps scenario show ?thesis by blast
qed

text \<open>
  Scenario C from the fresh store: the event of \<open>one_section_db 3\<close> and four calls for
  one seat.
\<close>

theorem single_section_no_oversell_witness:
  "wf_ids empty_db
   \<and> createEvent (at_time 0) empty_db (event_rq [sec_in ''VIP'' 3 None])
       = (Json 201 \<lparr>ev_id = 0, ev_name = ''Concert'', sections =
            [\<lparr>sec_id = 1, sec_name = ''VIP'', price = 100, capacity = 3, remaining = 3\<rparr>]\<rparr>,
          one_section_db 3)
   \<and> list_all (\<lambda>(en, q). 1 \<le> q) [(at_time 1, 1::int), (at_time 2, 1), (at_time 3, 1), (at_time 4, 1)]
   \<and> sold (fst (book_seq (one_section_db 3) 0 1
        [(at_time 1, 1), (at_time 2, 1), (at_time 3, 1), (at_time 4, 1)])) \<le> 3
   \<and> (\<exists>b1 b2 b3 d2. book_seq (one_section_db 3) 0 1
          [(at_time 1, 1), (at_time 2, 1), (at_time 3, 1), (at_time 4, 1)]
            = ([Inr b1, Inr b2, Inr b3, Inl NotEnoughSeats], d2)
          \<and> seats_left d2 0 = [0])"
proof -
  let ?ev = "\<lparr>ev_id = 0, ev_name = ''Concert'', sections =
            [\<lparr>sec_id = 1, sec_name = ''VIP'', price = 100, capacity = 3, remaining = 3\<rparr>]\<rparr>"
  let ?s = "\<lparr>sec_id = 1, sec_name = ''VIP'', price = 100, capacity = 3, remaining = 3\<rparr>"
  let ?cs = "[(at_time 1, 1::int), (at_time 2, 1), (at_time 3, 1), (at_time 4, 1)]"
  have wf: "wf_ids empty_db" by (simp add: wf_ids_def empty_db_def)
  have ce: "createEvent (at_time 0) empty_db (event_rq [sec_in ''VIP'' 3 None])
       = (Json 201 ?ev, one_section_db 3)"
    by code_simp
  have secs: "rq_sections (event_rq [sec_in ''VIP'' 3 None]) = Some [sec_in ''VIP'' 3 None]"
    by (simp add: event_rq_def)
  have rem: "in_remaining (sec_in ''VIP'' 3 None) = None" by (simp add: sec_in_def)
  have cap: "in_capacity (sec_in ''VIP'' 3 None) = Some 3" by (simp add: sec_in_def)
  have qs: "list_all (\<lambda>(en, q). 1 \<le> q) ?cs" by simp
  have ok: "save_succeeds (at_time 1)" "save_succeeds (at_time 2)" "save_succeeds (at_time 3)"
    by (simp_all add: save_succeeds_def at_time_def)
  from single_section_no_oversell [OF wf ce secs rem cap qs, of "at_time 1" "at_time 2" "at_time 3" "at_time 4"]
  obtain s where s: "sections ?ev = [s]"
    and steps: "\<forall>n. case book_seq (one_section_db 3) (ev_id ?ev) (sec_id s) (take n ?cs) of
                     (rs, d2) \<Rightarrow> sold rs \<le> 3
                                \<and> (\<exists>r. seats_left d2 (ev_id ?ev) = [r] \<and> 0 \<le> r \<and> r \<le> 3)"
    and scen: "3 = (3::int) \<and> save_succeeds (at_time 1) \<and> save_succeeds (at_time 2) \<and> save_succeeds (at_time 3) \<longrightarrow>
                 (\<exists>b1 b2 b3 d2.
                    book_seq (one_section_db 3) (ev_id ?ev) (sec_id s) [(at_time 1, 1), (at_time 2, 1), (at_time 3, 1), (at_time 4, 1)]
                      = ([Inr b1, Inr b2, Inr b3, Inl NotEnoughSeats], d2)
                    \<and> seats_left d2 (ev_id ?ev) = [0])"
    by blast
  from s have sid: "sec_id s = 1" by auto
  from steps [rule_format, of 4] sid
  have le: "sold (fst (book_seq (one_section_db 3) 0 1 ?cs)) \<le> 3"
    by (simp add: case_prod_beta)
  from scen ok sid
  have run: "\<exists>b1 b2 b3 d2. book_seq (one_section_db 3) 0 1 ?cs
            = ([Inr b1, Inr b2, Inr b3, Inl NotEnoughSeats], d2) \<and> seats_left d2 0 = [0]"
    by simp
  from wf ce qs le run show ?thesis by simp
qed

section \<open>Reachable states\<close>

lemma wf_ids_alt:
  "wf_ids d \<longleftrightarrow> distinct (map ev_id (events d)) \<and> (\<forall>i \<in> set (map ev_id (events d)). i < next_oid d)"
  by (auto simp: wf_ids_def list_all_iff)

lemma booked_append:
  "booked (bs @ [b]) e s
     = booked bs e s + (if bk_eventId b = e \<and> bk_sectionId b = s then bk_qty b else 0)"
  by (simp add: booked_def)

lemma booked_none: "\<forall>b \<in> set bs. bk_eventId b \<noteq> e \<Longrightarrow> booked bs e s = 0"
  by (induction bs) (auto simp: booked_def)

lemma sound_empty: "sound empty_db"
  by (simp add: sound_def wf_ids_def refs_below_def conserved_def empty_db_def)

lemma sound_mono:
  assumes "sound d" and "events d' = events d" and "bookings d' = bookings d"
    and "next_oid d \<le> next_oid d'"
  shows "sound d'"
  using assms by (auto simp: sound_def wf_ids_alt refs_below_def conserved_def list_all_iff)

lemma sound_createEvent:
  assumes "sound d" and "plain (PostEvent en rq)"
  shows "sound (snd (createEvent en d rq))"
proof (cases "\<exists>ev. fst (createEvent en d rq) = Json 201 ev")
  case False
  with createEvent_reply_cases [of en d rq]
  obtain st msg where "fst (createEvent en d rq) = JsonError st msg" by blast
  from createEvent_failure [OF this] sound_mono [OF assms(1)] show ?thesis by blast
next
  case True
  then obtain ev d' where ce: "createEvent en d rq = (Json 201 ev, d')"
    by (cases "createEvent en d rq") auto
  from createEvent_success [OF ce] obtain secs where
    secs: "rq_sections rq = Some secs"
    and cs: "cast_sections (Suc (next_oid d)) (map with_remaining secs) = Some (sections ev)"
    and eid: "ev_id ev = next_oid d"
    and d': "d' = d\<lparr>next_oid := Suc (next_oid d) + length secs, calls := calls d @ [SaveEvent],
                    events := events d @ [ev]\<rparr>"
    by blast
  from assms(1) have wf: "wf_ids d" and rb: "refs_below d" and co: "conserved d"
    by (simp_all add: sound_def)
  from wf eid have wf': "wf_ids d'"
    by (auto simp: wf_ids_alt d')
  from rb have rb': "refs_below d'"
    by (auto simp: refs_below_def d' list_all_iff)
  have co': "conserved d'"
    unfolding conserved_def
  proof (intro ballI allI impI)
    fix x s assume x: "x \<in> set (events d')" and xs: "sections x = [s]"
    show "capacity s - remaining s = booked (bookings d') (ev_id x) (sec_id s)"
    proof (cases "x \<in> set (events d)")
      case True
      with co xs show ?thesis by (simp add: conserved_def d')
    next
      case False
      with x have xe: "x = ev" by (simp add: d')
      from cast_sections_length [OF cs] xs xe have len: "length secs = 1" by simp
      then have i: "0 < length (map with_remaining secs)" by simp
      from cast_sections_nth [OF cs i] xs xe len
      have r: "in_remaining (with_remaining (secs ! 0)) = Some (remaining s)"
        and c: "in_capacity (with_remaining (secs ! 0)) = Some (capacity s)"
        by simp_all
      from assms(2) secs len have "in_remaining (secs ! 0) = None"
        by (cases secs) auto
      with r c have eq: "remaining s = capacity s" by (simp add: with_remaining_def)
      from rb eid have "\<forall>b \<in> set (bookings d). bk_eventId b \<noteq> ev_id ev"
        by (auto simp: refs_below_def list_all_iff)
      from booked_none [OF this] have "booked (bookings d') (ev_id x) (sec_id s) = 0"
        by (simp add: d' xe)
      with eq show ?thesis by simp
    qed
  qed
  from wf' rb' co' ce show ?thesis by (simp add: sound_def)
qed

lemma sound_bookTicket:
  assumes "sound d" and "1 \<le> q" and "save_succeeds en"
  shows "sound (snd (bookTicket en d e s q))"
proof -
  from assms(1) have wf: "wf_ids d" and rb: "refs_below d" and co: "conserved d"
    by (simp_all add: sound_def)
  from wf have dist: "distinct (map ev_id (events d))" by (simp add: wf_ids_def)
  show ?thesis
  proof (cases "\<exists>ev. findById e (events d) = Some ev \<and> matches e s q ev")
    case False
    then have "findById e (events d) = None
       \<or> (\<exists>ev. findById e (events d) = Some ev \<and> \<not> matches e s q ev)"
      by (cases "findById e (events d)") auto
    from bookTicket_no_match [OF dist this, of en] sound_mono [OF assms(1)]
    show ?thesis by simp
  next
    case True
    then obtain ev where fb: "findById e (events d) = Some ev" and m: "matches e s q ev" by blast
    let ?b = "\<lparr>bk_id = next_oid d, bk_eventId = e, bk_sectionId = s, bk_qty = q, bk_createdAt = now en\<rparr>"
    let ?d' = "snd (bookTicket en d e s q)"
    from bookTicket_match [OF dist fb m, of en] assms(2,3)
    have ev': "events ?d' = map (\<lambda>x. if ev_id x = e then apply_inc q x else x) (events d)"
      and bk': "bookings ?d' = bookings d @ [?b]"
      and no': "next_oid ?d' = Suc (next_oid d)"
      by (simp_all add: Let_def)
    from findById_Some [OF fb] have evin: "ev \<in> set (events d)" and eid: "ev_id ev = e" by simp_all
    from wf have wf': "wf_ids ?d'"
      by (auto simp: wf_ids_alt ev' no' map_ev_id_apply_inc simp del: map_map)
    from wf evin eid have "e < next_oid d" by (auto simp: wf_ids_alt)
    with rb have rb': "refs_below ?d'"
      by (auto simp: refs_below_def bk' no' list_all_iff)
    have co': "conserved ?d'"
      unfolding conserved_def
    proof (intro ballI allI impI)
      fix x' s' assume x': "x' \<in> set (events ?d')" and xs: "sections x' = [s']"
      from x' obtain x where x: "x \<in> set (events d)"
        and x'x: "x' = (if ev_id x = e then apply_inc q x else x)"
        by (auto simp: ev')
      show "capacity s' - remaining s' = booked (bookings ?d') (ev_id x') (sec_id s')"
      proof (cases "ev_id x = e")
        case False
        with x'x have same: "x' = x" by simp
        from co x xs same have "capacity s' - remaining s' = booked (bookings d) (ev_id x) (sec_id s')"
          by (simp add: conserved_def)
        with False same show ?thesis by (simp add: bk' booked_append)
      next
        case True
        from findById_distinct [OF dist x] True fb have xev: "x = ev" by simp
        with x'x True have x'e: "x' = apply_inc q ev" by simp
        with xs have "length (sections ev) = 1"
          using length_sections_apply_inc [of q ev] by simp
        then obtain s0 where s0: "sections ev = [s0]"
          by (cases "sections ev") auto
        from m s0 have sid: "sec_id s0 = s" and le: "q \<le> remaining s0"
          by (simp_all add: matches_single)
        from apply_inc_single [OF s0 le] xs x'e have s': "s' = s0\<lparr>remaining := remaining s0 - q\<rparr>"
          by simp
        from co evin s0 have "capacity s0 - remaining s0 = booked (bookings d) (ev_id ev) (sec_id s0)"
          by (simp add: conserved_def)
        with s' sid eid x'e show ?thesis
          by (simp add: bk' booked_append)
      qed
    qed
    from wf' rb' co' show ?thesis by (simp add: sound_def)
  qed
qed

lemma createBooking_db:
  "snd (createBooking en d rq) = d
   \<or> (\<exists>e s q. 1 \<le> q \<and> snd (createBooking en d rq) = snd (bookTicket en d e s q))"
proof (cases "\<exists>e s q. rq_eventId rq = Some e \<and> rq_sectionId rq = Some s \<and> rq_qty rq = Some q \<and> 1 \<le> q")
  case True
  then obtain e s q where h: "rq_eventId rq = Some e" "rq_sectionId rq = Some s" "rq_qty rq = Some q" "1 \<le> q"
    by blast
  then have "snd (createBooking en d rq) = snd (bookTicket en d e s q)"
    by (simp add: createBooking_def split: prod.splits sum.splits)
  with h(4) show ?thesis by blast
next
  case False
  then have "snd (createBooking en d rq) = d"
    by (auto simp: createBooking_def split: option.splits)
  then show ?thesis by simp
qed

lemma sound_handle:
  assumes "sound d" and "plain r"
  shows "sound (handle d r)"
proof (cases r)
  case (PostEvent en rq)
  with assms sound_createEvent show ?thesis by simp
next
  case (PostBook en rq)
  with assms(2) have ok: "save_succeeds en" by simp
  from createBooking_db [of en d rq] sound_bookTicket [OF assms(1) _ ok] assms(1) PostBook
  show ?thesis by auto
qed

lemma findOneAndUpdate_ids:
  "findOneAndUpdate e s q evs = Some (u, evs') \<Longrightarrow> map ev_id evs' = map ev_id evs"
  by (induction evs arbitrary: evs') (auto split: if_splits)

lemma bookTicket_ids:
  "map ev_id (events (snd (bookTicket en d e s q))) = map ev_id (events d)
   \<and> next_oid d \<le> next_oid (snd (bookTicket en d e s q))"
  by (auto simp: bookTicket_def Let_def split: option.splits dest: findOneAndUpdate_ids)

lemma wf_ids_createEvent:
  assumes "wf_ids d"
  shows "wf_ids (snd (createEvent en d rq))"
proof (cases "\<exists>ev. fst (createEvent en d rq) = Json 201 ev")
  case True
  then obtain ev d' where ce: "createEvent en d rq = (Json 201 ev, d')"
    by (cases "createEvent en d rq") auto
  from createEvent_success [OF ce] obtain secs :: "section_input list" where
    eid: "ev_id ev = next_oid d"
    and d': "d' = d\<lparr>next_oid := Suc (next_oid d) + length secs, calls := calls d @ [SaveEvent],
                    events := events d @ [ev]\<rparr>"
    by auto
  from assms eid have "wf_ids d'"
    by (auto simp: wf_ids_alt d')
  with ce show ?thesis by simp
next
  case False
  with createEvent_reply_cases [of en d rq]
  obtain st msg where "fst (createEvent en d rq) = JsonError st msg" by blast
  from createEvent_failure [OF this] assms show ?thesis
    by (auto simp: wf_ids_alt)
qed

lemma wf_ids_handle:
  assumes "wf_ids d"
  shows "wf_ids (handle d r)"
proof (cases r)
  case (PostEvent en rq)
  with wf_ids_createEvent [OF assms] show ?thesis by simp
next
  case (PostBook en rq)
  from createBooking_db [of en d rq]
  consider "snd (createBooking en d rq) = d"
    | e s q where "snd (createBooking en d rq) = snd (bookTicket en d e s q)"
    by blast
  then show ?thesis
  proof cases
    case 1
    with assms PostBook show ?thesis by simp
  next
    case 2
    with bookTicket_ids [of en d e s q] assms PostBook show ?thesis
      by (auto simp: wf_ids_alt simp del: set_map)
  qed
qed

text \<open>Every state reached from the empty store has its event ids in order.\<close>

lemma wf_ids_reach: "wf_ids (reach rs)"
proof (induction rs rule: rev_induct)
  case Nil
  show ?case by (simp add: reach_def wf_ids_def empty_db_def)
next
  case (snoc r rs)
  from wf_ids_handle [OF this] show ?case by (simp add: reach_def)
qed

lemma sound_reach: "list_all plain rs \<Longrightarrow> sound (reach rs)"
proof (induction rs rule: rev_induct)
  case Nil
  then show ?case by (simp add: reach_def sound_empty)
next
  case (snoc r rs)
  then have "sound (reach rs)" and "plain r" by simp_all
  from sound_handle [OF this] show ?case by (simp add: reach_def)
qed

text \<open>
  Claim C4, as stated, fails, in two ways. After one request creating a section of
  capacity 10 with a \<^verbatim>\<open>remaining\<close> of 3, capacity minus remaining is 7 and there is no
  booking. After a section of capacity 3 is created and a request for 2 seats has its
  save fail, capacity minus remaining is 2 and there is no booking.
\<close>

theorem conservation_counterexample:
  "map (\<lambda>ev. map (\<lambda>s. (sec_id s, capacity s, remaining s)) (sections ev))
      (events (reach [PostEvent (at_time 0) (event_rq [sec_in ''VIP'' 10 (Some 3)])]))
     = [[(1, 10, 3)]]
   \<and> booked (bookings (reach [PostEvent (at_time 0) (event_rq [sec_in ''VIP'' 10 (Some 3)])])) 0 1 = 0
   \<and> map (\<lambda>ev. map (\<lambda>s. (sec_id s, capacity s, remaining s)) (sections ev))
      (events (reach [PostEvent (at_time 0) (event_rq [sec_in ''VIP'' 3 None]),
                      PostBook \<lparr>now = 1, saves = [False]\<rparr> (book_rq 0 1 2)]))
     = [[(1, 3, 1)]]
   \<and> booked (bookings (reach [PostEvent (at_time 0) (event_rq [sec_in ''VIP'' 3 None]),
                      PostBook \<lparr>now = 1, saves = [False]\<rparr> (book_rq 0 1 2)])) 0 1 = 0"
  by code_simp

text \<open>
  Claim C4, amended. In every state reached from the empty store by requests that create
  sections without a \<^verbatim>\<open>remaining\<close> of their own and booking requests whose save is
  stored, every event that consists of a single section has capacity minus remaining
  equal to the seats of the stored bookings that name this event and this section.
\<close>

theorem single_section_conservation:
  assumes "list_all plain rs" and "ev \<in> set (events (reach rs))" and "sections ev = [s]"
  shows "capacity s - remaining s = booked (bookings (reach rs)) (ev_id ev) (sec_id s)"
  using sound_reach [OF assms(1)] assms(2,3) by (simp add: sound_def conserved_def)

text \<open>
  A section of capacity 3 is created and 2 seats are booked: one seat remains and the
  one booking has 2 seats.
\<close>

theorem single_section_conservation_witness:
  "list_all plain [PostEvent (at_time 0) (event_rq [sec_in ''VIP'' 3 None]),
                   PostBook (at_time 1) (book_rq 0 1 2)]
   \<and> events (reach [PostEvent (at_time 0) (event_rq [sec_in ''VIP'' 3 None]),
                    PostBook (at_time 1) (book_rq 0 1 2)])
       = [\<lparr>ev_id = 0, ev_name = ''Concert'', sections =
            [\<lparr>sec_id = 1, sec_name = ''VIP'', price = 100, capacity = 3, remaining = 1\<rparr>]\<rparr>]
   \<and> booked (bookings (reach [PostEvent (at_time 0) (event_rq [sec_in ''VIP'' 3 None]),
                    PostBook (at_time 1) (book_rq 0 1 2)])) 0 1 = 2"
proof -
  let ?rs = "[PostEvent (at_time 0) (event_rq [sec_in ''VIP'' 3 None]),
              PostBook (at_time 1) (book_rq 0 1 2)]"
  let ?s = "\<lparr>sec_id = 1, sec_name = ''VIP'', price = 100, capacity = 3, remaining = 1\<rparr>"
  let ?ev = "\<lparr>ev_id = 0, ev_name = ''Concert'', sections = [?s]\<rparr>"
  have p: "list_all plain ?rs"
    by (simp add: event_rq_def sec_in_def at_time_def save_succeeds_def)
  have evs: "events (reach ?rs) = [?ev]" by code_simp
  then have mem: "?ev \<in> set (events (reach ?rs))" by simp
  have ss: "sections ?ev = [?s]" by simp
  from single_section_conservation [OF p mem ss]
  have "booked (bookings (reach ?rs)) 0 1 = 2" by simp
  with p evs show ?thesis by simp
qed

end
